theory Spec2Isabelle
  imports Complex_Main
begin

section \<open>JavaScript values\<close>

text \<open>
  A JavaScript string is a sequence of UTF-16 code units; a code unit is modelled by its
  numeric value, so every JavaScript string is a \<open>jsstring\<close>. String literals of the
  source are written \<open>lit ''...''\<close>.

  A JavaScript \<open>number\<close> is modelled as a real: the finite numbers with exact
  arithmetic. \<open>NaN\<close> arises in the modelled code only from reading an array out of
  range; such a read is \<open>None\<close> below and every comparison with it is false.
\<close>

type_synonym jsstring = "nat list"

definition lit :: "string \<Rightarrow> jsstring" where
  "lit s = map of_char s"

text \<open>\<^verbatim>\<open>xs[i]\<close>: \<open>undefined\<close> outside the array.\<close>

definition js_index :: "'a list \<Rightarrow> int \<Rightarrow> 'a option" where
  "js_index xs i = (if 0 \<le> i \<and> i < int (length xs) then Some (xs ! nat i) else None)"

section \<open>services/tailwindMapper.ts\<close>

definition SPACING_SCALE_PX :: "real list" where
  "SPACING_SCALE_PX =
     [0, 2, 4, 6, 8, 10, 12, 14, 16, 20, 24, 28, 32, 36, 40, 44, 48, 52, 56, 60, 64, 72, 80, 96]"

definition SPACING_UNITS :: "jsstring list" where
  "SPACING_UNITS = map lit
     [''0'', ''0.5'', ''1'', ''1.5'', ''2'', ''2.5'', ''3'', ''3.5'', ''4'', ''5'', ''6'', ''7'',
      ''8'', ''9'', ''10'', ''11'', ''12'', ''14'', ''16'', ''20'', ''24'', ''28'', ''32'', ''36'',
      ''40'', ''44'', ''48'', ''52'', ''56'', ''60'', ''64'', ''72'', ''80'', ''96'']"


definition RADIUS_SCALE :: "(jsstring \<times> real) list" where
  "RADIUS_SCALE =
     [(lit ''none'', 0), (lit ''sm'', 2), (lit ''DEFAULT'', 4), (lit ''md'', 6), (lit ''lg'', 8),
      (lit ''xl'', 12), (lit ''2xl'', 16), (lit ''3xl'', 24), (lit ''full'', 9999)]"

text \<open>
  The \<^verbatim>\<open>while (left <= right)\<close> loop of \<^verbatim>\<open>findClosestIndex\<close>. The state is
  \<open>(left, right, closestIndex, closestDiff)\<close>; the result is the last two. The indices
  are integers, since \<^verbatim>\<open>right = mid - 1\<close> may reach \<open>-1\<close>.
\<close>

function binarySearch :: "real \<Rightarrow> real list \<Rightarrow> int \<Rightarrow> int \<Rightarrow> int \<Rightarrow> real \<Rightarrow> int \<times> real" where
  "binarySearch v scale left right closestIndex closestDiff =
     (if left \<le> right then
        let mid = (left + right) div 2;
            diff = map_option (\<lambda>s. \<bar>s - v\<bar>) (js_index scale mid);
            improved = (case diff of Some d \<Rightarrow> d < closestDiff | None \<Rightarrow> False);
            closestDiff' = (if improved then the diff else closestDiff);
            closestIndex' = (if improved then mid else closestIndex)
        in if (case js_index scale mid of Some s \<Rightarrow> s < v | None \<Rightarrow> False)
           then binarySearch v scale (mid + 1) right closestIndex' closestDiff'
           else binarySearch v scale left (mid - 1) closestIndex' closestDiff'
      else (closestIndex, closestDiff))"
  by pat_completeness auto
termination
  by (relation "measure (\<lambda>(v, scale, left, right, ci, cd). nat (right - left + 1))") auto

text \<open>
  The \<^verbatim>\<open>for (const idx of neighbors)\<close> loop; \<open>neighbors\<close> has been filtered to the
  indices of the array, so the reads are in range.
\<close>

fun scanNeighbors :: "real \<Rightarrow> real list \<Rightarrow> int list \<Rightarrow> int \<Rightarrow> real \<Rightarrow> int \<times> real" where
  "scanNeighbors v scale [] closestIndex closestDiff = (closestIndex, closestDiff)"
| "scanNeighbors v scale (idx # rest) closestIndex closestDiff =
     (let diff = \<bar>scale ! nat idx - v\<bar>
      in if diff < closestDiff then scanNeighbors v scale rest idx diff
         else scanNeighbors v scale rest closestIndex closestDiff)"

definition findClosestIndex :: "real \<Rightarrow> real list \<Rightarrow> int" where
  "findClosestIndex v scale =
     (if length scale = 0 then 0
      else if length scale = 1 then 0
      else
        let right = int (length scale) - 1;
            closestDiff = \<bar>scale ! 0 - v\<bar>
        in if v \<le> scale ! 0 then 0
           else if v \<ge> scale ! nat right then right
           else
             let (closestIndex, closestDiff) = binarySearch v scale 0 right 0 closestDiff;
                 neighbors = filter (\<lambda>i. i \<ge> 0 \<and> i < int (length scale))
                               [closestIndex - 1, closestIndex, closestIndex + 1]
             in fst (scanNeighbors v scale neighbors closestIndex closestDiff))"

text \<open>The \<^verbatim>\<open>for (const [key, scaleValue] of entries)\<close> loop of \<^verbatim>\<open>findClosestKey\<close>.\<close>

fun scanEntries :: "real \<Rightarrow> ('k \<times> real) list \<Rightarrow> 'k \<Rightarrow> real \<Rightarrow> 'k \<times> real" where
  "scanEntries v [] closestKey closestDiff = (closestKey, closestDiff)"
| "scanEntries v ((key, scaleValue) # rest) closestKey closestDiff =
     (let diff = \<bar>scaleValue - v\<bar>
      in if diff < closestDiff then scanEntries v rest key diff
         else scanEntries v rest closestKey closestDiff)"

text \<open>
  \<^verbatim>\<open>findClosestKey\<close> reads \<^verbatim>\<open>entries[0][0]\<close> first, which throws a TypeError on an
  object without entries: \<open>None\<close>.
\<close>

definition findClosestKey :: "real \<Rightarrow> ('k \<times> real) list \<Rightarrow> 'k option" where
  "findClosestKey v entries =
     (case entries of
        [] \<Rightarrow> None
      | (key0, value0) # _ \<Rightarrow> Some (fst (scanEntries v entries key0 \<bar>value0 - v\<bar>)))"

text \<open>
  \<^verbatim>\<open>SPACING_UNITS[closestIndex]\<close>: the index is one of \<open>SPACING_SCALE_PX\<close>, which is
  the shorter array (lemma \<open>findClosestIndex_range\<close>), so the read is in range.
\<close>

definition spacingToTailwind :: "real \<Rightarrow> jsstring" where
  "spacingToTailwind px =
     (let isNegative = px < 0;
          absPx = \<bar>px\<bar>;
          closestIndex = findClosestIndex absPx SPACING_SCALE_PX;
          closestUnit = SPACING_UNITS ! nat closestIndex
      in if isNegative then lit ''-'' @ closestUnit else closestUnit)"


definition radiusToTailwind :: "real \<Rightarrow> jsstring option" where
  "radiusToTailwind px =
     (if px \<ge> 1000 then Some (lit ''rounded-full'')
      else map_option
             (\<lambda>closestKey. if closestKey = lit ''DEFAULT'' then lit ''rounded''
                            else lit ''rounded-'' @ closestKey)
             (findClosestKey px RADIUS_SCALE))"


section \<open>Strings and regular expressions\<close>

text \<open>
  The code units that \<^verbatim>\<open>String.prototype.trim\<close> strips and \<^verbatim>\<open>\s\<close> matches
  (WhiteSpace and LineTerminator of ECMAScript), and the ones \<^verbatim>\<open>.\<close> does not match.
\<close>

definition is_ws :: "nat \<Rightarrow> bool" where
  "is_ws c \<longleftrightarrow>
     c \<in> {9, 10, 11, 12, 13, 32, 160, 5760, 8232, 8233, 8239, 8287, 12288, 65279} \<or>
     (8192 \<le> c \<and> c \<le> 8202)"

definition is_line_terminator :: "nat \<Rightarrow> bool" where
  "is_line_terminator c \<longleftrightarrow> c \<in> {10, 13, 8232, 8233}"

definition is_alpha :: "nat \<Rightarrow> bool" where
  "is_alpha c \<longleftrightarrow> (65 \<le> c \<and> c \<le> 90) \<or> (97 \<le> c \<and> c \<le> 122)"

definition is_alnum :: "nat \<Rightarrow> bool" where
  "is_alnum c \<longleftrightarrow> is_alpha c \<or> (48 \<le> c \<and> c \<le> 57)"

definition is_quote :: "nat \<Rightarrow> bool" where
  "is_quote c \<longleftrightarrow> c = of_char CHR 0x22 \<or> c = of_char CHR 0x27"

definition trim :: "jsstring \<Rightarrow> jsstring" where
  "trim s = rev (dropWhile is_ws (rev (dropWhile is_ws s)))"

text \<open>
  The patterns of the source use character classes, concatenation, alternation and
  repetition only: no anchors inside a pattern, no back-references, no look-around. They
  are values of \<open>regex\<close>; lazy and greedy repetition are both \<open>Star\<close>, since
  \<^verbatim>\<open>test\<close> only asks whether a match exists.
\<close>

datatype regex =
    Never
  | Eps
  | Class "nat \<Rightarrow> bool"
  | Alt regex regex
  | Cat regex regex
  | Star regex

text \<open>
  A literal character, a literal character under the \<^verbatim>\<open>i\<close> flag (an ASCII letter
  matches both of its cases, and no code unit above 127 is folded onto an ASCII letter),
  a sequence of patterns, a literal string, and \<^verbatim>\<open>r+\<close>.
\<close>

definition Chr :: "char \<Rightarrow> regex" where
  "Chr c = Class (\<lambda>x. x = of_char c)"

definition ChrI :: "char \<Rightarrow> regex" where
  "ChrI c = Class (\<lambda>x. is_alpha x \<and> is_alpha (of_char c) \<and> x mod 32 = of_char c mod 32 \<or>
                       x = of_char c)"

definition Cats :: "regex list \<Rightarrow> regex" where
  "Cats rs = foldr Cat rs Eps"

definition Str :: "string \<Rightarrow> regex" where
  "Str s = Cats (map Chr s)"

definition StrI :: "string \<Rightarrow> regex" where
  "StrI s = Cats (map ChrI s)"

definition Many1 :: "regex \<Rightarrow> regex" where
  "Many1 r = Cat r (Star r)"

text \<open>
  Matching, by derivatives of the pattern. \<open>matchPrefix r s\<close> tries \<open>r\<close> at the start of
  \<open>s\<close>; \<open>regex_test r s\<close> is \<^verbatim>\<open>r.test(s)\<close> for a pattern object that starts at index
  0 (a regular expression literal is a fresh object at every evaluation, so the
  \<^verbatim>\<open>g\<close> flag has nothing to remember): it tries every start position from the left.
  \<open>matchWhole r s\<close> is the test of \<^verbatim>\<open>^r$\<close>.
\<close>

definition alt :: "regex \<Rightarrow> regex \<Rightarrow> regex" where
  "alt r s = (case r of Never \<Rightarrow> s | _ \<Rightarrow> (case s of Never \<Rightarrow> r | _ \<Rightarrow> Alt r s))"

definition cat :: "regex \<Rightarrow> regex \<Rightarrow> regex" where
  "cat r s = (case r of Never \<Rightarrow> Never | Eps \<Rightarrow> s
              | _ \<Rightarrow> (case s of Never \<Rightarrow> Never | _ \<Rightarrow> Cat r s))"

fun nullable :: "regex \<Rightarrow> bool" where
  "nullable Never = False"
| "nullable Eps = True"
| "nullable (Class p) = False"
| "nullable (Alt r s) = (if nullable r then True else nullable s)"
| "nullable (Cat r s) = (if nullable r then nullable s else False)"
| "nullable (Star r) = True"

fun deriv :: "nat \<Rightarrow> regex \<Rightarrow> regex" where
  "deriv c Never = Never"
| "deriv c Eps = Never"
| "deriv c (Class p) = (if p c then Eps else Never)"
| "deriv c (Alt r s) = alt (deriv c r) (deriv c s)"
| "deriv c (Cat r s) =
     (if nullable r then alt (cat (deriv c r) s) (deriv c s) else cat (deriv c r) s)"
| "deriv c (Star r) = cat (deriv c r) (Star r)"

fun matchPrefix :: "regex \<Rightarrow> jsstring \<Rightarrow> bool" where
  "matchPrefix r [] = nullable r"
| "matchPrefix r (c # cs) =
     (if nullable r then True
      else (case deriv c r of Never \<Rightarrow> False | d \<Rightarrow> matchPrefix d cs))"

fun regex_test :: "regex \<Rightarrow> jsstring \<Rightarrow> bool" where
  "regex_test r [] = nullable r"
| "regex_test r (c # cs) = (if matchPrefix r (c # cs) then True else regex_test r cs)"

fun matchWhole :: "regex \<Rightarrow> jsstring \<Rightarrow> bool" where
  "matchWhole r [] = nullable r"
| "matchWhole r (c # cs) = matchWhole (deriv c r) cs"

text \<open>
  The language of a pattern, and \<open>occurs r s\<close>: some substring of \<open>s\<close> belongs to it. The
  properties below are stated with these; lemma \<open>regex_test_iff\<close> shows that the matcher
  decides them.
\<close>

definition conc :: "jsstring set \<Rightarrow> jsstring set \<Rightarrow> jsstring set" where
  "conc A B = {u @ v | u v. u \<in> A \<and> v \<in> B}"

inductive_set star :: "jsstring set \<Rightarrow> jsstring set" for A :: "jsstring set" where
  star_nil: "[] \<in> star A"
| star_app: "u \<in> A \<Longrightarrow> v \<in> star A \<Longrightarrow> u @ v \<in> star A"

fun lang :: "regex \<Rightarrow> jsstring set" where
  "lang Never = {}"
| "lang Eps = {[]}"
| "lang (Class p) = {[c] | c. p c}"
| "lang (Alt r s) = lang r \<union> lang s"
| "lang (Cat r s) = conc (lang r) (lang s)"
| "lang (Star r) = star (lang r)"

definition occurs :: "regex \<Rightarrow> jsstring \<Rightarrow> bool" where
  "occurs r s \<longleftrightarrow> (\<exists>a w b. s = a @ w @ b \<and> w \<in> lang r)"

section \<open>services/aiService.ts: validateJSXOutput\<close>

text \<open>
  The character classes \<^verbatim>\<open>[\s\S]\<close>, \<^verbatim>\<open>\s\<close>, \<^verbatim>\<open>.\<close>, \<^verbatim>\<open>["']\<close> and \<^verbatim>\<open>[^"']\<close>,
  and the patterns of \<^verbatim>\<open>validateJSXOutput\<close> in the order of the source.
\<close>

definition anyChar :: regex where "anyChar = Class (\<lambda>_. True)"
definition space :: regex where "space = Class is_ws"
definition dotChar :: regex where "dotChar = Class (\<lambda>c. \<not> is_line_terminator c)"
definition quoteChar :: regex where "quoteChar = Class is_quote"
definition notQuoteChar :: regex where "notQuoteChar = Class (\<lambda>c. \<not> is_quote c)"

definition jsxElementPattern :: regex where
  "jsxElementPattern =
     Cats [Chr CHR ''<'', Class is_alpha, Star (Class is_alnum),
           Alt space (Alt (Chr CHR ''>'') (Chr CHR ''/''))]"

definition inlineStylePattern :: regex where
  "inlineStylePattern =
     Cats [Str ''style'', Star space, Chr CHR ''='', Star space, Chr CHR ''{'', Star anyChar,
           Chr CHR ''}'']"

definition styleStringPattern :: regex where
  "styleStringPattern =
     Cats [Str ''style'', Star space, Chr CHR ''='', Star space, quoteChar, Star notQuoteChar,
           quoteChar]"

definition styleTagPattern :: regex where
  "styleTagPattern =
     Cats [StrI ''<style'', Star (Class (\<lambda>c. c \<noteq> of_char CHR ''>'')), Chr CHR ''>'',
           Star anyChar, StrI ''</style>'']"

definition styledComponentsPattern :: regex where
  "styledComponentsPattern =
     Alt (Cat (Str ''styled.'') (Many1 (Class is_alpha)))
    (Alt (Cats [Str ''css'', Star space, Chr CHR 0x60])
    (Alt (Str ''@emotion'')
    (Alt (Str ''makeStyles'')
         (Str ''styled(''))))"

definition cssInClassNamePattern :: regex where
  "cssInClassNamePattern =
     Cats [Str ''className'', Star space, Chr CHR ''='', Star space, quoteChar, Star notQuoteChar,
           Alt (Chr CHR '':'') (Chr CHR '';''), Star space, Star notQuoteChar, quoteChar]"

definition cssImportPattern :: regex where
  "cssImportPattern =
     Cats [Str ''import'', Many1 space, quoteChar, Star dotChar, Str ''.css'', quoteChar]"

definition cssModulePattern :: regex where
  "cssModulePattern =
     Cats [Str ''import'', Many1 space, Star dotChar, Many1 space, Str ''from'', Many1 space,
           quoteChar, Star dotChar, Str ''.module.css'', quoteChar]"

definition requireCssPattern :: regex where
  "requireCssPattern =
     Cats [Str ''require'', Star space, Chr CHR ''('', quoteChar, Star dotChar, Str ''.css'',
           quoteChar, Chr CHR '')'']"

definition hasOpeningTagPattern :: regex where
  "hasOpeningTagPattern = Cat (Chr CHR ''<'') (Class is_alpha)"

text \<open>
  A thrown \<^verbatim>\<open>Error\<close> is the left summand of the result, with its message. The eleven
  messages of \<^verbatim>\<open>validateJSXOutput\<close> have a name each.
\<close>

datatype jsError = Error jsstring

definition rejectEmpty :: jsError where
  "rejectEmpty = Error (lit ''Rejected: Output is empty. JSX code is required.'')"

definition rejectNoJSX :: jsError where
  "rejectNoJSX = Error (lit ''Rejected: Output does not contain valid JSX code. Expected JSX elements.'')"

definition rejectInlineStyle :: jsError where
  "rejectInlineStyle = Error (lit ''Rejected: Output contains inline styles (style={{ }}). Only Tailwind CSS classes are allowed.'')"

definition rejectStyleString :: jsError where
  "rejectStyleString = Error (lit ''Rejected: Output contains inline style strings (style=\"...\"). Only Tailwind CSS classes are allowed.'')"

definition rejectStyleTag :: jsError where
  "rejectStyleTag = Error (lit ''Rejected: Output contains <style> tags. Only Tailwind CSS classes are allowed.'')"

definition rejectCssInJs :: jsError where
  "rejectCssInJs = Error (lit ''Rejected: Output contains CSS-in-JS patterns. Only Tailwind CSS classes are allowed.'')"

definition rejectCssInClassName :: jsError where
  "rejectCssInClassName = Error (lit ''Rejected: Output contains CSS-like syntax in className. Only Tailwind utility classes are allowed.'')"

definition rejectCssImport :: jsError where
  "rejectCssImport = Error (lit ''Rejected: Output contains CSS imports. Only Tailwind CSS classes are allowed.'')"

definition rejectCssModule :: jsError where
  "rejectCssModule = Error (lit ''Rejected: Output contains CSS modules. Only Tailwind CSS classes are allowed.'')"

definition rejectRequireCss :: jsError where
  "rejectRequireCss = Error (lit ''Rejected: Output contains require() CSS imports. Only Tailwind CSS classes are allowed.'')"

definition rejectNoOpeningTag :: jsError where
  "rejectNoOpeningTag = Error (lit ''Rejected: Output does not appear to be valid JSX code.'')"

definition validateJSXOutput :: "jsstring \<Rightarrow> jsError + jsstring" where
  "validateJSXOutput jsxCode =
     (let trimmed = trim jsxCode in
      if trimmed = [] then Inl rejectEmpty
      else if \<not> regex_test jsxElementPattern trimmed then Inl rejectNoJSX
      else if regex_test inlineStylePattern trimmed then Inl rejectInlineStyle
      else if regex_test styleStringPattern trimmed then Inl rejectStyleString
      else if regex_test styleTagPattern trimmed then Inl rejectStyleTag
      else if regex_test styledComponentsPattern trimmed then Inl rejectCssInJs
      else if regex_test cssInClassNamePattern trimmed then Inl rejectCssInClassName
      else if regex_test cssImportPattern trimmed then Inl rejectCssImport
      else if regex_test cssModulePattern trimmed then Inl rejectCssModule
      else if regex_test requireCssPattern trimmed then Inl rejectRequireCss
      else if \<not> regex_test hasOpeningTagPattern trimmed then Inl rejectNoOpeningTag
      else Inr trimmed)"

section \<open>commands/generateFromFigma.ts: withBreakpoint\<close>

text \<open>
  The type \<^verbatim>\<open>Breakpoint\<close> is a union of five string literals; \<open>breakpointName\<close> is
  the string a value of the type is. \<^verbatim>\<open>!className\<close> holds of the empty string only.
\<close>

datatype Breakpoint = Sm | Md | Lg | Xl | XXl

fun breakpointName :: "Breakpoint \<Rightarrow> jsstring" where
  "breakpointName Sm = lit ''sm''"
| "breakpointName Md = lit ''md''"
| "breakpointName Lg = lit ''lg''"
| "breakpointName Xl = lit ''xl''"
| "breakpointName XXl = lit ''2xl''"

definition withBreakpoint :: "Breakpoint \<Rightarrow> jsstring \<Rightarrow> jsstring" where
  "withBreakpoint breakpoint className =
     (if className = [] then className
      else breakpointName breakpoint @ lit '':'' @ className)"

section \<open>services/licenseService.ts: parseFigmaUrl\<close>

text \<open>
  \<^verbatim>\<open>s.match(/(?:p1|p2)([C]+)/)\<close> for literal strings \<open>p1\<close>, \<open>p2\<close> and a character class
  \<open>C\<close>, reduced to its capture group: \<open>matchGroup\<close> tries the start positions from the
  left, \<open>groupAt\<close> tries the alternatives in order at one position, and the greedy group
  takes the longest run of \<open>C\<close>, which must not be empty. \<open>None\<close> is the \<^verbatim>\<open>null\<close> of
  no match. The two patterns of \<^verbatim>\<open>parseFigmaUrl\<close> have this shape:
  \<^verbatim>\<open>figma\.com\/(?:file|design)\/([a-zA-Z0-9]+)\<close> and \<^verbatim>\<open>[?&]node-id=([^&]+)\<close>.
\<close>

definition startsWith :: "jsstring \<Rightarrow> jsstring \<Rightarrow> bool" where
  "startsWith s p \<longleftrightarrow> take (length p) s = p"

fun groupAt :: "jsstring list \<Rightarrow> (nat \<Rightarrow> bool) \<Rightarrow> jsstring \<Rightarrow> jsstring option" where
  "groupAt [] cls s = None"
| "groupAt (p # ps) cls s =
     (if startsWith s p \<and> takeWhile cls (drop (length p) s) \<noteq> []
      then Some (takeWhile cls (drop (length p) s))
      else groupAt ps cls s)"

fun matchGroup :: "jsstring list \<Rightarrow> (nat \<Rightarrow> bool) \<Rightarrow> jsstring \<Rightarrow> jsstring option" where
  "matchGroup alts cls [] = None"
| "matchGroup alts cls (c # cs) =
     (case groupAt alts cls (c # cs) of
        Some g \<Rightarrow> Some g
      | None \<Rightarrow> matchGroup alts cls cs)"

text \<open>
  \<open>bareIdPattern\<close> is the body of \<^verbatim>\<open>/^[a-zA-Z0-9]+$/\<close>; \<open>fileIdPattern\<close> is the first
  pattern above as a \<open>regex\<close>, for the statement of when it has no match (lemma
  \<open>matchGroup_fileId_None\<close>).
\<close>

definition bareIdPattern :: regex where
  "bareIdPattern = Many1 (Class is_alnum)"

definition fileIdPrefixes :: "jsstring list" where
  "fileIdPrefixes = [lit ''figma.com/file/'', lit ''figma.com/design/'']"

definition nodeIdPrefixes :: "jsstring list" where
  "nodeIdPrefixes = [lit ''?node-id='', lit ''&node-id='']"

definition fileIdPattern :: regex where
  "fileIdPattern =
     Cats [Str ''figma.com/'', Alt (Str ''file'') (Str ''design''), Chr CHR ''/'',
           Many1 (Class is_alnum)]"

text \<open>
  \<^verbatim>\<open>decodeURIComponent\<close> is a built-in of the language, not code of the repository: it
  is a parameter, and \<open>Inl\<close> is the \<^verbatim>\<open>URIError\<close> it throws on a malformed escape
  sequence, which \<^verbatim>\<open>parseFigmaUrl\<close> does not catch.
\<close>

record ParsedFigmaUrl =
  fileId :: jsstring
  nodeId :: "jsstring option"

definition parseFigmaUrl ::
  "(jsstring \<Rightarrow> jsError + jsstring) \<Rightarrow> jsstring \<Rightarrow> jsError + ParsedFigmaUrl" where
  "parseFigmaUrl decodeURIComponent figmaUrl =
     (let trimmed = trim figmaUrl in
      if matchWhole bareIdPattern trimmed then Inr \<lparr>fileId = trimmed, nodeId = None\<rparr>
      else
        case matchGroup fileIdPrefixes is_alnum trimmed of
          None \<Rightarrow> Inl (Error (lit ''Invalid Figma URL format: '' @ figmaUrl))
        | Some fileId' \<Rightarrow>
            (case matchGroup nodeIdPrefixes (\<lambda>c. c \<noteq> of_char CHR ''&'') trimmed of
               None \<Rightarrow> Inr \<lparr>fileId = fileId', nodeId = None\<rparr>
             | Some encoded \<Rightarrow>
                 (case decodeURIComponent encoded of
                    Inl e \<Rightarrow> Inl e
                  | Inr nodeId' \<Rightarrow> Inr \<lparr>fileId = fileId', nodeId = Some nodeId'\<rparr>)))"

text \<open>A decoder that agrees with the built-in on the one string it is applied to below.\<close>

definition decodeFixture :: "jsstring \<Rightarrow> jsError + jsstring" where
  "decodeFixture s = (if s = lit ''1%3A2'' then Inr (lit ''1:2'') else Inl (Error (lit ''URIError'')))"

section \<open>services/codeWriter.ts: writeJSXCode\<close>

































section \<open>The utility-scale mapper\<close>

declare binarySearch.simps [simp del]













lemmas mapper_eval = findClosestIndex_def SPACING_SCALE_PX_def SPACING_UNITS_def
  spacingToTailwind_def js_index_def binarySearch.simps Let_def

text \<open>
  Claim C3. The spacing scale is meant to pair \<open>SPACING_SCALE_PX\<close> with \<open>SPACING_UNITS\<close>
  index by index. The code has 24 pixel values and 34 unit labels, so the label read at
  an index is not the label of the matched pixel value: 96 px is matched at index 23, and
  the label read there is \<open>36\<close> (which stands for 144 px), where the comment of the
  source (one unit is 4 px) gives \<open>24\<close>.
\<close>

theorem C3_spacing_scales_unpaired:
  "length SPACING_SCALE_PX = 24 \<and> length SPACING_UNITS = 34 \<and>
   findClosestIndex 96 SPACING_SCALE_PX = 23 \<and> SPACING_SCALE_PX ! 23 = 96 \<and>
   spacingToTailwind 96 = lit ''36''"
  by (simp add: mapper_eval)






text \<open>
  Claim C7, amended. For every \<open>v > 0\<close>, \<open>spacingToTailwind (- v)\<close> is
  \<open>spacingToTailwind v\<close> behind the marker \<open>-\<close>.
\<close>

theorem C7_negation_marker:
  "0 < v \<Longrightarrow> spacingToTailwind (- v) = lit ''-'' @ spacingToTailwind v"
  by (simp add: spacingToTailwind_def)

theorem C7_negation_marker_witness:
  "(0::real) < 8 \<and> spacingToTailwind (- 8) = lit ''-2'' \<and> spacingToTailwind 8 = lit ''2''"
  using C7_negation_marker [of 8] by (simp add: mapper_eval lit_def)

text \<open>
  Claim C7 as stated fails at \<open>v = 0\<close> (\<open>- 0 < 0\<close> is false, so no marker is added) and
  at negative \<open>v\<close> (there \<open>spacingToTailwind v\<close> carries the marker and
  \<open>spacingToTailwind (- v)\<close> does not).
\<close>

theorem C7_negation_counterexample:
  "spacingToTailwind (- 0) \<noteq> lit ''-'' @ spacingToTailwind 0 \<and>
   spacingToTailwind (- (- 4)) \<noteq> lit ''-'' @ spacingToTailwind (- 4)"
  by (simp add: mapper_eval lit_def)




section \<open>The matcher decides the language of a pattern\<close>

lemma concI: "u \<in> A \<Longrightarrow> v \<in> B \<Longrightarrow> u @ v \<in> conc A B"
  by (auto simp: conc_def)

lemma conc_empty [simp]: "conc {} B = {}" "conc A {} = {}"
  by (auto simp: conc_def)

lemma conc_unit [simp]: "conc {[]} B = B" "conc A {[]} = A"
  by (auto simp: conc_def)

lemma nil_in_conc: "[] \<in> conc A B \<longleftrightarrow> [] \<in> A \<and> [] \<in> B"
  by (auto simp: conc_def)

lemma cons_in_conc:
  "c # w \<in> conc A B \<longleftrightarrow>
     ([] \<in> A \<and> c # w \<in> B) \<or> (\<exists>u v. w = u @ v \<and> c # u \<in> A \<and> v \<in> B)"
proof
  assume "c # w \<in> conc A B"
  then obtain u v where uv: "c # w = u @ v" "u \<in> A" "v \<in> B" by (auto simp: conc_def)
  show "([] \<in> A \<and> c # w \<in> B) \<or> (\<exists>u v. w = u @ v \<and> c # u \<in> A \<and> v \<in> B)"
  proof (cases u)
    case Nil
    then show ?thesis using uv by simp
  next
    case (Cons x u')
    then show ?thesis using uv by auto
  qed
next
  assume "([] \<in> A \<and> c # w \<in> B) \<or> (\<exists>u v. w = u @ v \<and> c # u \<in> A \<and> v \<in> B)"
  then show "c # w \<in> conc A B"
  proof
    assume "[] \<in> A \<and> c # w \<in> B"
    then show ?thesis using concI [of "[]" A "c # w" B] by simp
  next
    assume "\<exists>u v. w = u @ v \<and> c # u \<in> A \<and> v \<in> B"
    then obtain u v where "w = u @ v" "c # u \<in> A" "v \<in> B" by blast
    then show ?thesis using concI [of "c # u" A v B] by simp
  qed
qed

lemma cons_in_star:
  "c # w \<in> star A \<longleftrightarrow> (\<exists>u v. w = u @ v \<and> c # u \<in> A \<and> v \<in> star A)"
proof
  assume "c # w \<in> star A"
  then show "\<exists>u v. w = u @ v \<and> c # u \<in> A \<and> v \<in> star A"
  proof (induction "c # w" arbitrary: w rule: star.induct)
    case (star_app u v)
    show ?case
    proof (cases u)
      case Nil
      then show ?thesis using star_app by simp
    next
      case (Cons x u')
      then have "w = u' @ v" "c # u' \<in> A" using star_app.hyps by auto
      then show ?thesis using star_app.hyps(2) by blast
    qed
  qed
next
  assume "\<exists>u v. w = u @ v \<and> c # u \<in> A \<and> v \<in> star A"
  then obtain u v where "w = u @ v" "c # u \<in> A" "v \<in> star A" by blast
  then show "c # w \<in> star A" using star.star_app [of "c # u" A v] by simp
qed

lemma lang_alt [simp]: "lang (alt r s) = lang r \<union> lang s"
  by (cases r; cases s) (simp_all add: alt_def)

lemma lang_cat [simp]: "lang (cat r s) = conc (lang r) (lang s)"
  by (cases r; cases s) (simp_all add: cat_def)

lemma nullable_iff: "nullable r \<longleftrightarrow> [] \<in> lang r"
  by (induction r) (auto simp: nil_in_conc star.star_nil)

lemma lang_deriv: "w \<in> lang (deriv c r) \<longleftrightarrow> c # w \<in> lang r"
proof (induction r arbitrary: w)
  case (Cat r s)
  have A: "w \<in> conc (lang (deriv c r)) (lang s) \<longleftrightarrow>
             (\<exists>u v. w = u @ v \<and> c # u \<in> lang r \<and> v \<in> lang s)"
    using Cat.IH(1) by (auto simp: conc_def)
  show ?case
    by (cases "nullable r") (auto simp: A cons_in_conc nullable_iff Cat.IH(2))
next
  case (Star r)
  have B: "w \<in> conc (lang (deriv c r)) (star (lang r)) \<longleftrightarrow>
             (\<exists>u v. w = u @ v \<and> c # u \<in> lang r \<and> v \<in> star (lang r))"
    using Star.IH by (auto simp: conc_def)
  show ?case by (simp add: B cons_in_star)
qed auto

lemma matchPrefix_iff: "matchPrefix r s \<longleftrightarrow> (\<exists>u v. s = u @ v \<and> u \<in> lang r)"
proof (induction s arbitrary: r)
  case Nil
  then show ?case by (simp add: nullable_iff)
next
  case (Cons c cs)
  show ?case
  proof (cases "nullable r")
    case True
    then have "c # cs = [] @ (c # cs) \<and> [] \<in> lang r" by (simp add: nullable_iff)
    then show ?thesis using True by (metis matchPrefix.simps(2))
  next
    case False
    then have nonil: "[] \<notin> lang r" by (simp add: nullable_iff)
    have split: "(\<exists>u v. c # cs = u @ v \<and> u \<in> lang r) \<longleftrightarrow>
                 (\<exists>u v. cs = u @ v \<and> u \<in> lang (deriv c r))"
    proof
      assume "\<exists>u v. c # cs = u @ v \<and> u \<in> lang r"
      then obtain u v where uv: "c # cs = u @ v" "u \<in> lang r" by blast
      then obtain u' where "u = c # u'" "cs = u' @ v" using nonil by (cases u) auto
      then show "\<exists>u v. cs = u @ v \<and> u \<in> lang (deriv c r)"
        using uv by (auto simp: lang_deriv)
    next
      assume "\<exists>u v. cs = u @ v \<and> u \<in> lang (deriv c r)"
      then obtain u v where "cs = u @ v" "c # u \<in> lang r" by (auto simp: lang_deriv)
      then have "c # cs = (c # u) @ v \<and> c # u \<in> lang r" by simp
      then show "\<exists>u v. c # cs = u @ v \<and> u \<in> lang r" by blast
    qed
    show ?thesis
      using False split Cons.IH [of "deriv c r"] by (cases "deriv c r") simp_all
  qed
qed

lemma occurs_Nil: "occurs r [] \<longleftrightarrow> [] \<in> lang r"
  by (auto simp: occurs_def)

lemma occurs_Cons:
  "occurs r (c # cs) \<longleftrightarrow> (\<exists>u v. c # cs = u @ v \<and> u \<in> lang r) \<or> occurs r cs"
proof
  assume "occurs r (c # cs)"
  then obtain a w b where awb: "c # cs = a @ w @ b" "w \<in> lang r" by (auto simp: occurs_def)
  show "(\<exists>u v. c # cs = u @ v \<and> u \<in> lang r) \<or> occurs r cs"
  proof (cases a)
    case Nil
    then show ?thesis using awb by auto
  next
    case (Cons x a')
    then have "cs = a' @ w @ b" using awb by simp
    then show ?thesis using awb(2) by (auto simp: occurs_def)
  qed
next
  assume "(\<exists>u v. c # cs = u @ v \<and> u \<in> lang r) \<or> occurs r cs"
  then show "occurs r (c # cs)"
  proof
    assume "\<exists>u v. c # cs = u @ v \<and> u \<in> lang r"
    then obtain u v where "c # cs = [] @ u @ v" "u \<in> lang r" by auto
    then show ?thesis unfolding occurs_def by blast
  next
    assume "occurs r cs"
    then obtain a w b where "cs = a @ w @ b" "w \<in> lang r" by (auto simp: occurs_def)
    then have "c # cs = (c # a) @ w @ b" by simp
    then show ?thesis using \<open>w \<in> lang r\<close> unfolding occurs_def by blast
  qed
qed

lemma regex_test_iff: "regex_test r s \<longleftrightarrow> occurs r s"
proof (induction s)
  case Nil
  then show ?case by (simp add: nullable_iff occurs_Nil)
next
  case (Cons c cs)
  have "regex_test r (c # cs) \<longleftrightarrow> matchPrefix r (c # cs) \<or> regex_test r cs"
    by (simp del: matchPrefix.simps)
  then show ?case
    unfolding occurs_Cons Cons.IH matchPrefix_iff by blast
qed

section \<open>The validation gate\<close>

lemmas pats = jsxElementPattern_def inlineStylePattern_def styleStringPattern_def styleTagPattern_def
  styledComponentsPattern_def cssInClassNamePattern_def cssImportPattern_def cssModulePattern_def
  requireCssPattern_def hasOpeningTagPattern_def Cats_def Str_def StrI_def Chr_def ChrI_def Many1_def
  anyChar_def space_def dotChar_def quoteChar_def notQuoteChar_def


lemmas ev = validateJSXOutput_def trim_def lit_def is_ws_def is_alpha_def is_alnum_def is_quote_def
  is_line_terminator_def alt_def cat_def Let_def withBreakpoint_def

text \<open>An occurrence that begins and ends with a visible character survives \<open>trim\<close>.\<close>

lemma dropWhile_keeps:
  "w \<noteq> [] \<Longrightarrow> \<not> P (hd w) \<Longrightarrow> \<exists>a'. dropWhile P (a @ w @ b) = a' @ w @ b"
proof (induction a)
  case Nil
  then show ?case by (cases w) auto
next
  case (Cons y a)
  then obtain a' where a': "dropWhile P (a @ w @ b) = a' @ w @ b" by blast
  show ?case
  proof (cases "P y")
    case True
    then show ?thesis using a' by simp
  next
    case False
    then have "dropWhile P ((y # a) @ w @ b) = (y # a) @ w @ b" by simp
    then show ?thesis by blast
  qed
qed

lemma trim_keeps:
  assumes "w \<noteq> []" "\<not> is_ws (hd w)" "\<not> is_ws (last w)"
  shows "\<exists>a' b'. trim (a @ w @ b) = a' @ w @ b'"
proof -
  obtain a' where a': "dropWhile is_ws (a @ w @ b) = a' @ w @ b"
    using dropWhile_keeps [of w is_ws a b] assms by blast
  have "rev w \<noteq> []" "\<not> is_ws (hd (rev w))" using assms by (simp_all add: hd_rev)
  then obtain b' where b': "dropWhile is_ws (rev b @ rev w @ rev a') = b' @ rev w @ rev a'"
    using dropWhile_keeps [of "rev w" is_ws "rev b" "rev a'"] by blast
  have "trim (a @ w @ b) = a' @ w @ rev b'"
    by (simp add: trim_def a' b')
  then show ?thesis by blast
qed

lemma occurs_trim:
  assumes "w \<in> lang r" "w \<noteq> []" "\<not> is_ws (hd w)" "\<not> is_ws (last w)"
  shows "occurs r (trim (a @ w @ b))"
proof -
  obtain a' b' where "trim (a @ w @ b) = a' @ w @ b'"
    using trim_keeps [OF assms(2-4)] by blast
  then show ?thesis using assms(1) unfolding occurs_def by blast
qed

lemma lang_Cats_Nil: "lang (Cats []) = {[]}"
  by (simp add: Cats_def)

lemma lang_Cats_Cons: "lang (Cats (r # rs)) = conc (lang r) (lang (Cats rs))"
  by (simp add: Cats_def)

lemma lang_Chr: "lang (Chr c) = {[of_char c]}"
  by (auto simp: Chr_def)

lemma lang_Str: "lang (Str s) = {lit s}"
  by (induction s) (auto simp: Str_def lit_def lang_Cats_Nil lang_Cats_Cons lang_Chr conc_def)

lemma star_Class: "\<forall>x \<in> set xs. p x \<Longrightarrow> xs \<in> star {[c] | c. p c}"
proof (induction xs)
  case Nil
  then show ?case by (simp add: star.star_nil)
next
  case (Cons x xs)
  then have "[x] \<in> {[c] | c. p c}" "xs \<in> star {[c] | c. p c}" by auto
  then show ?case using star.star_app [of "[x]" "{[c] | c. p c}" xs] by simp
qed

text \<open>
  The last check of \<^verbatim>\<open>validateJSXOutput\<close> never fails: every match of the element
  pattern starts with a match of \<^verbatim>\<open>/<[a-zA-Z]/\<close>. So the gate is the chain of the first
  ten checks.
\<close>

lemma jsx_has_opening_tag:
  assumes "occurs jsxElementPattern t"
  shows "occurs hasOpeningTagPattern t"
proof -
  obtain a w b where awb: "t = a @ w @ b" "w \<in> lang jsxElementPattern"
    using assms by (auto simp: occurs_def)
  then obtain c w' where w: "w = of_char CHR ''<'' # c # w'" "is_alpha c"
    by (auto simp: jsxElementPattern_def lang_Cats_Cons lang_Chr conc_def)
  have "[of_char CHR ''<'', c] \<in> lang hasOpeningTagPattern"
    using w(2) by (auto simp: hasOpeningTagPattern_def lang_Chr conc_def)
  moreover have "t = a @ [of_char CHR ''<'', c] @ (w' @ b)" using awb w by simp
  ultimately show ?thesis unfolding occurs_def by blast
qed

lemma validateJSXOutput_gate:
  "validateJSXOutput s =
     (let t = trim s in
      if t = [] then Inl rejectEmpty
      else if \<not> occurs jsxElementPattern t then Inl rejectNoJSX
      else if occurs inlineStylePattern t then Inl rejectInlineStyle
      else if occurs styleStringPattern t then Inl rejectStyleString
      else if occurs styleTagPattern t then Inl rejectStyleTag
      else if occurs styledComponentsPattern t then Inl rejectCssInJs
      else if occurs cssInClassNamePattern t then Inl rejectCssInClassName
      else if occurs cssImportPattern t then Inl rejectCssImport
      else if occurs cssModulePattern t then Inl rejectCssModule
      else if occurs requireCssPattern t then Inl rejectRequireCss
      else Inr t)"
  using jsx_has_opening_tag [of "trim s"]
  by (simp add: validateJSXOutput_def regex_test_iff Let_def)


lemma quote_split:
  assumes "is_quote q"
  shows "\<exists>nq q' r. xs @ [q] = nq @ q' # r \<and> (\<forall>x \<in> set nq. \<not> is_quote x) \<and> is_quote q'"
proof -
  let ?nq = "takeWhile (\<lambda>x. \<not> is_quote x) (xs @ [q])"
  let ?r = "dropWhile (\<lambda>x. \<not> is_quote x) (xs @ [q])"
  have "?r \<noteq> []" using assms by (auto simp: dropWhile_eq_Nil_conv)
  then obtain q' r where r: "?r = q' # r" by (cases ?r) auto
  then have "is_quote q'" using hd_dropWhile [of "\<lambda>x. \<not> is_quote x" "xs @ [q]"] by auto
  moreover have "xs @ [q] = ?nq @ q' # r" using r by (metis takeWhile_dropWhile_id)
  moreover have "\<forall>x \<in> set ?nq. \<not> is_quote x" by (auto dest: set_takeWhileD)
  ultimately show ?thesis by blast
qed

lemma breakpointName_no_quote: "\<forall>x \<in> set (breakpointName bp). \<not> is_quote x"
  by (cases bp) (simp_all add: lit_def is_quote_def)

lemma className_colon_occurs:
  assumes "\<forall>x \<in> set ws1. is_ws x" "\<forall>x \<in> set ws2. is_ws x" "is_quote q1" "is_quote q2"
    "\<forall>x \<in> set pre. \<not> is_quote x"
  shows "occurs cssInClassNamePattern
           (trim (a @ lit ''className'' @ ws1 @ lit ''='' @ ws2 @ [q1] @ pre @ lit '':'' @ rest @ [q2] @ b))"
proof -
  obtain nq q' r where split: "rest @ [q2] = nq @ q' # r" "\<forall>x \<in> set nq. \<not> is_quote x" "is_quote q'"
    using quote_split [OF assms(4)] by blast
  define w where "w = lit ''className'' @ ws1 @ lit ''='' @ ws2 @ [q1] @ pre @ lit '':'' @ [] @ nq @ [q']"
  have wl: "w \<in> lang cssInClassNamePattern"
    unfolding w_def cssInClassNamePattern_def lang_Cats_Cons lang_Cats_Nil
    apply (intro concI)
    using assms split
    by (auto simp: lang_Str lang_Chr space_def quoteChar_def notQuoteChar_def lit_def star.star_nil
             intro!: star_Class)
  have wn: "w \<noteq> []" "\<not> is_ws (hd w)" "\<not> is_ws (last w)"
    using split(3) by (auto simp: w_def lit_def is_ws_def is_quote_def)
  have eq: "a @ lit ''className'' @ ws1 @ lit ''='' @ ws2 @ [q1] @ pre @ lit '':'' @ rest @ [q2] @ b
                 = a @ w @ (r @ b)"
    using split(1) by (simp add: w_def)
  show ?thesis unfolding eq by (rule occurs_trim [OF wl wn])
qed




text \<open>
  Claim C10, amended. For every breakpoint and every non-empty class string,
  \<open>withBreakpoint\<close> returns the prefix, a colon and the class; and every text that contains
  \<^verbatim>\<open>className\<close>, optional white space, \<^verbatim>\<open>=\<close>, optional white space, a quote, a value
  with such a class in it, and a closing quote is rejected by \<open>validateJSXOutput\<close>, by its
  class check or by an earlier one, provided no quote character of either kind stands in
  the value before the class.
\<close>

theorem C10_breakpoint_class_rejected:
  assumes "className \<noteq> []"
    "\<forall>x \<in> set ws1. is_ws x" "\<forall>x \<in> set ws2. is_ws x" "is_quote q1" "is_quote q2"
    "\<forall>x \<in> set pre. \<not> is_quote x"
  shows "withBreakpoint bp className = breakpointName bp @ lit '':'' @ className \<and>
         validateJSXOutput
           (a @ lit ''className'' @ ws1 @ lit ''='' @ ws2 @ [q1] @ pre @
            withBreakpoint bp className @ post @ [q2] @ b)
         \<in> Inl ` {rejectEmpty, rejectNoJSX, rejectInlineStyle, rejectStyleString, rejectStyleTag,
                   rejectCssInJs, rejectCssInClassName}"
proof -
  have wb: "withBreakpoint bp className = breakpointName bp @ lit '':'' @ className"
    using assms(1) by (simp add: withBreakpoint_def)
  have nq: "\<forall>x \<in> set (pre @ breakpointName bp). \<not> is_quote x"
    using assms(6) breakpointName_no_quote [of bp] by auto
  have "occurs cssInClassNamePattern
          (trim (a @ lit ''className'' @ ws1 @ lit ''='' @ ws2 @ [q1] @ (pre @ breakpointName bp) @
                 lit '':'' @ (className @ post) @ [q2] @ b))"
    by (rule className_colon_occurs [OF assms(2-5) nq])
  then have "occurs cssInClassNamePattern
          (trim (a @ lit ''className'' @ ws1 @ lit ''='' @ ws2 @ [q1] @ pre @
                 withBreakpoint bp className @ post @ [q2] @ b))"
    by (simp add: wb)
  then show ?thesis
    using wb by (simp add: validateJSXOutput_gate Let_def)
qed

theorem C10_breakpoint_class_rejected_witness:
  "lit ''flex'' \<noteq> [] \<and> is_quote 34 \<and> withBreakpoint Md (lit ''flex'') = lit ''md:flex'' \<and>
   validateJSXOutput (lit ''<p className=\"p-4 md:flex\"/>'') = Inl rejectCssInClassName"
  using C10_breakpoint_class_rejected [of "lit ''flex''" "[]" "[]" 34 34 "lit ''p-4 ''" Md "lit ''<p ''" "[]" "lit ''/>''"]
  by (simp add: ev pats)

text \<open>
  Claim C10 as stated fails: after an arbitrary-value class that contains quotes, the
  class built by \<open>withBreakpoint\<close> is not seen by the class check, and the text is returned
  as valid.
\<close>

theorem C10_quoted_value_counterexample:
  "validateJSXOutput (lit ''<p className=\"content-['x'] '' @ withBreakpoint Md (lit ''flex'') @ lit ''\"/>'')
     = Inr (lit ''<p className=\"content-['x'] md:flex\"/>'')"
  by (simp add: ev pats)

section \<open>Parsing a design reference\<close>

lemma matchWhole_iff: "matchWhole r s \<longleftrightarrow> s \<in> lang r"
  by (induction s arbitrary: r) (simp_all add: nullable_iff lang_deriv)

lemma lang_bareId: "s \<in> lang bareIdPattern \<longleftrightarrow> s \<noteq> [] \<and> (\<forall>x \<in> set s. is_alnum x)"
proof
  assume "s \<in> lang bareIdPattern"
  then obtain c w where s: "s = c # w" "is_alnum c" "w \<in> star {[c] | c. is_alnum c}"
    by (auto simp: bareIdPattern_def Many1_def conc_def)
  have "\<forall>x \<in> set w. is_alnum x" using s(3) by (induction rule: star.induct) auto
  then show "s \<noteq> [] \<and> (\<forall>x \<in> set s. is_alnum x)" using s by simp
next
  assume a: "s \<noteq> [] \<and> (\<forall>x \<in> set s. is_alnum x)"
  then obtain c w where s: "s = c # w" by (cases s) auto
  then have "[c] \<in> {[c] | c. is_alnum c}" "w \<in> star {[c] | c. is_alnum c}"
    using a by (auto intro: star_Class)
  then show "s \<in> lang bareIdPattern"
    using concI [of "[c]" "{[c] | c. is_alnum c}" w "star {[c] | c. is_alnum c}"] s
    by (simp add: bareIdPattern_def Many1_def)
qed

lemma trim_id:
  assumes "s = [] \<or> (\<not> is_ws (hd s) \<and> \<not> is_ws (last s))"
  shows "trim s = s"
proof (cases s)
  case Nil
  then show ?thesis by (simp add: trim_def)
next
  case (Cons c cs)
  then have a: "\<not> is_ws (hd s)" "\<not> is_ws (last s)" "s \<noteq> []" using assms by auto
  have "dropWhile is_ws s = s" using a(1) Cons by simp
  moreover have "dropWhile is_ws (rev s) = rev s"
    using a(2,3) by (cases "rev s") (auto simp: last_rev [symmetric] hd_rev)
  ultimately show ?thesis by (simp add: trim_def)
qed

lemma alnum_not_ws: "is_alnum c \<Longrightarrow> \<not> is_ws c"
  by (auto simp: is_alnum_def is_alpha_def is_ws_def)

lemma groupAt_no_start:
  assumes "\<forall>p \<in> set alts. p \<noteq> [] \<and> hd p \<noteq> c"
  shows "groupAt alts cls (c # cs) = None"
  using assms
proof (induction alts)
  case Nil
  then show ?case by simp
next
  case (Cons p ps)
  then obtain x p' where "p = x # p'" "x \<noteq> c" by (cases p) auto
  then show ?case using Cons by (simp add: startsWith_def)
qed

lemma matchGroup_skip:
  assumes "\<forall>c \<in> set xs. \<forall>p \<in> set alts. p \<noteq> [] \<and> hd p \<noteq> c"
  shows "matchGroup alts cls (xs @ ys) = matchGroup alts cls ys"
  using assms
proof (induction xs)
  case Nil
  then show ?case by simp
next
  case (Cons x xs)
  then have "groupAt alts cls (x # xs @ ys) = None" by (intro groupAt_no_start) simp
  then show ?case using Cons by simp
qed

lemma takeWhile_run:
  assumes "\<forall>x \<in> set g. cls x" "rest = [] \<or> \<not> cls (hd rest)"
  shows "takeWhile cls (g @ rest) = g"
  using assms by (cases rest) (simp_all add: takeWhile_append2)

lemma groupAt_Some_iff:
  "groupAt alts cls s \<noteq> None \<longleftrightarrow> (\<exists>p \<in> set alts. \<exists>c rest. s = p @ c # rest \<and> cls c)"
proof (induction alts)
  case Nil
  then show ?case by simp
next
  case (Cons p ps)
  define A where "A \<longleftrightarrow> startsWith s p \<and> takeWhile cls (drop (length p) s) \<noteq> []"
  have AB: "A \<longleftrightarrow> (\<exists>c rest. s = p @ c # rest \<and> cls c)"
  proof
    assume "A"
    then have a: "startsWith s p" "takeWhile cls (drop (length p) s) \<noteq> []" by (simp_all add: A_def)
    then have s: "s = p @ drop (length p) s"
      by (metis append_take_drop_id startsWith_def)
    obtain c rest where d: "drop (length p) s = c # rest"
      using a(2) by (cases "drop (length p) s") auto
    then have "cls c" using a(2) by (auto split: if_splits)
    then show "\<exists>c rest. s = p @ c # rest \<and> cls c" using s d by metis
  next
    assume "\<exists>c rest. s = p @ c # rest \<and> cls c"
    then show "A" by (auto simp: startsWith_def A_def)
  qed
  have g: "groupAt (p # ps) cls s =
             (if A then Some (takeWhile cls (drop (length p) s)) else groupAt ps cls s)"
    unfolding A_def by (rule groupAt.simps)
  have "groupAt (p # ps) cls s \<noteq> None \<longleftrightarrow>
               (\<exists>c rest. s = p @ c # rest \<and> cls c) \<or> groupAt ps cls s \<noteq> None"
    unfolding g AB [symmetric] by simp
  moreover have "(\<exists>p' \<in> set (p # ps). \<exists>c rest. s = p' @ c # rest \<and> cls c) \<longleftrightarrow>
                 (\<exists>c rest. s = p @ c # rest \<and> cls c) \<or>
                 (\<exists>p' \<in> set ps. \<exists>c rest. s = p' @ c # rest \<and> cls c)"
    by simp
  ultimately show ?case by (simp only: Cons.IH)
qed

lemma matchGroup_Some_iff:
  "matchGroup alts cls s \<noteq> None \<longleftrightarrow>
     (\<exists>a. \<exists>p \<in> set alts. \<exists>c rest. s = a @ p @ c # rest \<and> cls c)"
proof (induction s)
  case Nil
  then show ?case by simp
next
  case (Cons x xs)
  have here: "groupAt alts cls (x # xs) \<noteq> None \<longleftrightarrow>
              (\<exists>p \<in> set alts. \<exists>c rest. x # xs = [] @ p @ c # rest \<and> cls c)"
    using groupAt_Some_iff [of alts cls "x # xs"] by simp
  have split: "(\<exists>a. \<exists>p \<in> set alts. \<exists>c rest. x # xs = a @ p @ c # rest \<and> cls c) \<longleftrightarrow>
               (\<exists>p \<in> set alts. \<exists>c rest. x # xs = [] @ p @ c # rest \<and> cls c) \<or>
               (\<exists>a. \<exists>p \<in> set alts. \<exists>c rest. xs = a @ p @ c # rest \<and> cls c)"
  proof
    assume "\<exists>a. \<exists>p \<in> set alts. \<exists>c rest. x # xs = a @ p @ c # rest \<and> cls c"
    then obtain a p c rest where h: "p \<in> set alts" "x # xs = a @ p @ c # rest" "cls c" by blast
    show "(\<exists>p \<in> set alts. \<exists>c rest. x # xs = [] @ p @ c # rest \<and> cls c) \<or>
               (\<exists>a. \<exists>p \<in> set alts. \<exists>c rest. xs = a @ p @ c # rest \<and> cls c)"
    proof (cases a)
      case Nil
      then show ?thesis using h by auto
    next
      case (Cons y a')
      then have "xs = a' @ p @ c # rest" using h by simp
      then show ?thesis using h by blast
    qed
  next
    assume "(\<exists>p \<in> set alts. \<exists>c rest. x # xs = [] @ p @ c # rest \<and> cls c) \<or>
               (\<exists>a. \<exists>p \<in> set alts. \<exists>c rest. xs = a @ p @ c # rest \<and> cls c)"
    then show "\<exists>a. \<exists>p \<in> set alts. \<exists>c rest. x # xs = a @ p @ c # rest \<and> cls c"
    proof
      assume "\<exists>p \<in> set alts. \<exists>c rest. x # xs = [] @ p @ c # rest \<and> cls c"
      then show ?thesis by blast
    next
      assume "\<exists>a. \<exists>p \<in> set alts. \<exists>c rest. xs = a @ p @ c # rest \<and> cls c"
      then obtain a p c rest where h: "p \<in> set alts" "xs = a @ p @ c # rest" "cls c" by blast
      then have "x # xs = (x # a) @ p @ c # rest" by simp
      then show ?thesis using h by blast
    qed
  qed
  have mg: "matchGroup alts cls (x # xs) \<noteq> None \<longleftrightarrow>
            groupAt alts cls (x # xs) \<noteq> None \<or> matchGroup alts cls xs \<noteq> None"
    by (cases "groupAt alts cls (x # xs)") (simp_all del: groupAt.simps)
  show ?case by (simp only: mg here Cons.IH split)
qed

lemma lang_fileIdPattern:
  "w \<in> lang fileIdPattern \<longleftrightarrow>
     (\<exists>p \<in> set fileIdPrefixes. \<exists>g. w = p @ g \<and> g \<noteq> [] \<and> (\<forall>x \<in> set g. is_alnum x))"
proof -
  have "w \<in> lang fileIdPattern \<longleftrightarrow>
        (\<exists>k g. w = lit ''figma.com/'' @ k @ lit ''/'' @ g \<and> (k = lit ''file'' \<or> k = lit ''design'') \<and>
               g \<in> lang bareIdPattern)"
  proof -
    have "lang fileIdPattern =
            conc {lit ''figma.com/''} (conc ({lit ''file''} \<union> {lit ''design''})
              (conc {lit ''/''} (lang bareIdPattern)))"
      by (simp add: fileIdPattern_def bareIdPattern_def lang_Cats_Cons lang_Cats_Nil lang_Str
            lang_Chr lit_def)
    then show ?thesis by (auto simp: conc_def)
  qed
  also have "\<dots> \<longleftrightarrow> (\<exists>p \<in> set fileIdPrefixes. \<exists>g. w = p @ g \<and> g \<noteq> [] \<and> (\<forall>x \<in> set g. is_alnum x))"
  proof -
    have f1: "lit ''figma.com/file/'' = lit ''figma.com/'' @ lit ''file'' @ lit ''/''"
      and f2: "lit ''figma.com/design/'' = lit ''figma.com/'' @ lit ''design'' @ lit ''/''"
      by (simp_all add: lit_def)
    show ?thesis by (auto simp: fileIdPrefixes_def lang_bareId f1 f2)
  qed
  finally show ?thesis .
qed

lemma matchGroup_fileId_None:
  "matchGroup fileIdPrefixes is_alnum s = None \<longleftrightarrow> \<not> occurs fileIdPattern s"
proof -
  define X where "X \<longleftrightarrow> (\<exists>a. \<exists>p \<in> set fileIdPrefixes. \<exists>c rest. s = a @ p @ c # rest \<and> is_alnum c)"
  have "occurs fileIdPattern s \<longleftrightarrow> X"
    unfolding X_def
  proof
    assume "occurs fileIdPattern s"
    then obtain a w b where awb: "s = a @ w @ b" "w \<in> lang fileIdPattern" by (auto simp: occurs_def)
    then obtain p g where pg: "p \<in> set fileIdPrefixes" "w = p @ g" "g \<noteq> []" "\<forall>x \<in> set g. is_alnum x"
      using lang_fileIdPattern by blast
    then obtain c g' where "g = c # g'" "is_alnum c" by (cases g) auto
    then have "s = a @ p @ c # (g' @ b)" using awb pg by simp
    then show "\<exists>a. \<exists>p \<in> set fileIdPrefixes. \<exists>c rest. s = a @ p @ c # rest \<and> is_alnum c"
      using pg(1) \<open>is_alnum c\<close> by blast
  next
    assume "\<exists>a. \<exists>p \<in> set fileIdPrefixes. \<exists>c rest. s = a @ p @ c # rest \<and> is_alnum c"
    then obtain a p c rest where h: "p \<in> set fileIdPrefixes" "s = a @ p @ c # rest" "is_alnum c"
      by blast
    have "\<exists>p' \<in> set fileIdPrefixes. \<exists>g. p @ [c] = p' @ g \<and> g \<noteq> [] \<and> (\<forall>x \<in> set g. is_alnum x)"
      using h(1,3) by (intro bexI [of _ p] exI [of _ "[c]"]) auto
    then have "p @ [c] \<in> lang fileIdPattern" by (simp only: lang_fileIdPattern)
    moreover have "s = a @ (p @ [c]) @ rest" using h by simp
    ultimately show "occurs fileIdPattern s" unfolding occurs_def by blast
  qed
  moreover have "matchGroup fileIdPrefixes is_alnum s \<noteq> None \<longleftrightarrow> X"
    unfolding X_def by (rule matchGroup_Some_iff)
  ultimately show ?thesis by blast
qed

lemma matchGroup_here:
  assumes "s \<noteq> []" "groupAt alts cls s = Some g"
  shows "matchGroup alts cls s = Some g"
  using assms by (cases s) (simp_all del: groupAt.simps)

lemma nodeId_literal: "lit ''node-id='' = [110, 111, 100, 101, 45, 105, 100, 61]"
  by (simp add: lit_def)

lemma not_startsWith_nodeId:
  assumes none: "\<not> (\<exists>a b. x # xs = a @ lit ''node-id='' @ b)"
    and sep: "sep = of_char CHR ''?'' \<or> sep = of_char CHR ''&''"
  shows "\<not> startsWith (x # xs @ sep # ys) (q # lit ''node-id='')"
proof
  let ?N = "lit ''node-id=''"
  assume "startsWith (x # xs @ sep # ys) (q # ?N)"
  then have "take (length (q # ?N)) (x # xs @ sep # ys) = q # ?N"
    by (simp only: startsWith_def)
  moreover have "length (q # ?N) = Suc 8" by (simp add: lit_def)
  ultimately have "take (Suc 8) (x # xs @ sep # ys) = q # ?N" by simp
  then have tk: "take 8 (xs @ sep # ys) = ?N"
    by (simp only: take_Suc_Cons list.inject)
  show False
  proof (cases "8 \<le> length xs")
    case True
    then have "take 8 xs = ?N" using tk by simp
    then have "x # xs = [x] @ ?N @ drop 8 xs"
      by (metis append_Cons append_Nil append_take_drop_id)
    then show False using none by blast
  next
    case False
    then have k: "length xs < 8" by simp
    have "take 8 (xs @ sep # ys) ! length xs = sep"
      using k by (simp add: nth_append)
    then have "?N ! length xs = sep" using tk by simp
    moreover have "?N ! length xs \<in> set ?N"
      using k by (intro nth_mem) (simp add: nodeId_literal)
    ultimately have "sep \<in> set ?N" by simp
    then show False using sep by (auto simp: nodeId_literal)
  qed
qed

lemma matchGroup_skip_to_nodeId:
  assumes "\<not> (\<exists>a b. xs = a @ lit ''node-id='' @ b)"
    and "sep = of_char CHR ''?'' \<or> sep = of_char CHR ''&''"
  shows "matchGroup nodeIdPrefixes cls (xs @ sep # ys) = matchGroup nodeIdPrefixes cls (sep # ys)"
  using assms(1)
proof (induction xs)
  case Nil
  then show ?case by simp
next
  case (Cons x xs)
  have tl: "\<not> (\<exists>a b. xs = a @ lit ''node-id='' @ b)"
  proof
    assume "\<exists>a b. xs = a @ lit ''node-id='' @ b"
    then obtain a b where "xs = a @ lit ''node-id='' @ b" by blast
    then have "x # xs = (x # a) @ lit ''node-id='' @ b" by simp
    then show False using Cons.prems by blast
  qed
  have "\<not> startsWith (x # xs @ sep # ys) (q # lit ''node-id='')" for q
    by (rule not_startsWith_nodeId [OF Cons.prems assms(2)])
  then have "groupAt nodeIdPrefixes cls (x # xs @ sep # ys) = None"
    by (simp add: nodeIdPrefixes_def lit_def)
  then show ?case using Cons.IH [OF tl] by simp
qed

lemma parse_url:
  assumes kind: "kind = lit ''file'' \<or> kind = lit ''design''"
    and pre: "\<forall>x \<in> set pre. x \<noteq> of_char CHR ''f'' \<and> x \<noteq> of_char CHR ''?'' \<and> x \<noteq> of_char CHR ''&''"
    and fid: "fid \<noteq> []" "\<forall>x \<in> set fid. is_alnum x"
    and mid: "\<not> (\<exists>a b. mid = a @ lit ''node-id='' @ b)"
    and sep: "sep = of_char CHR ''?'' \<or> sep = of_char CHR ''&''"
    and enc: "enc \<noteq> []" "\<forall>x \<in> set enc. x \<noteq> of_char CHR ''&''"
    and rest: "rest = [] \<or> hd rest = of_char CHR ''&''"
    and url: "url = pre @ lit ''figma.com/'' @ kind @ lit ''/'' @ fid @ lit ''/'' @ mid @
                    [sep] @ lit ''node-id='' @ enc @ rest"
    and nows: "\<forall>x \<in> set url. \<not> is_ws x"
    and dec: "decodeURIComponent enc = Inr nid"
  shows "parseFigmaUrl decodeURIComponent url = Inr \<lparr>fileId = fid, nodeId = Some nid\<rparr>"
proof -
  have ne: "url \<noteq> []" using url by (simp add: lit_def)
  have tr: "trim url = url"
    using nows ne by (intro trim_id) auto
  have "of_char CHR ''/'' \<in> set url" using url by (simp add: lit_def)
  moreover have "\<not> is_alnum (of_char CHR ''/'')" by (simp add: is_alnum_def is_alpha_def)
  ultimately have bare: "\<not> matchWhole bareIdPattern url"
    unfolding matchWhole_iff lang_bareId by blast
  \<comment> \<open>the document id\<close>
  define tail where "tail = lit ''/'' @ mid @ [sep] @ lit ''node-id='' @ enc @ rest"
  have url1: "url = pre @ (lit ''figma.com/'' @ kind @ lit ''/'' @ fid @ tail)"
    using url by (simp add: tail_def)
  have run: "takeWhile is_alnum (fid @ tail) = fid"
    by (rule takeWhile_run) (use fid in \<open>auto simp: tail_def lit_def is_alnum_def is_alpha_def\<close>)
  have "groupAt fileIdPrefixes is_alnum (lit ''figma.com/'' @ kind @ lit ''/'' @ fid @ tail) = Some fid"
    using kind run fid(1) by (auto simp: fileIdPrefixes_def startsWith_def lit_def)
  then have "matchGroup fileIdPrefixes is_alnum (lit ''figma.com/'' @ kind @ lit ''/'' @ fid @ tail) = Some fid"
    by (intro matchGroup_here) (simp_all add: lit_def)
  moreover have "matchGroup fileIdPrefixes is_alnum url =
                 matchGroup fileIdPrefixes is_alnum (lit ''figma.com/'' @ kind @ lit ''/'' @ fid @ tail)"
    unfolding url1 by (rule matchGroup_skip) (use pre in \<open>simp add: fileIdPrefixes_def lit_def\<close>)
  ultimately have fileM: "matchGroup fileIdPrefixes is_alnum url = Some fid" by simp
  \<comment> \<open>the node id\<close>
  define front where "front = pre @ lit ''figma.com/'' @ kind @ lit ''/'' @ fid @ lit ''/''"
  define param where "param = lit ''node-id='' @ enc @ rest"
  have url2: "url = front @ (mid @ sep # param)"
    using url by (simp add: front_def param_def)
  have fid_ok: "\<forall>x \<in> set fid. x \<noteq> of_char CHR ''?'' \<and> x \<noteq> of_char CHR ''&''"
    using fid(2) by (auto simp: is_alnum_def is_alpha_def)
  have front_ok: "\<forall>c \<in> set front. \<forall>p \<in> set nodeIdPrefixes. p \<noteq> [] \<and> hd p \<noteq> c"
    using kind pre fid_ok by (auto simp: front_def nodeIdPrefixes_def lit_def)
  have run2: "takeWhile (\<lambda>c. c \<noteq> of_char CHR ''&'') (enc @ rest) = enc"
    by (rule takeWhile_run) (use enc rest in auto)
  have "groupAt nodeIdPrefixes (\<lambda>c. c \<noteq> of_char CHR ''&'') (sep # param) = Some enc"
    using run2 enc(1) sep by (auto simp: nodeIdPrefixes_def startsWith_def lit_def param_def)
  then have "matchGroup nodeIdPrefixes (\<lambda>c. c \<noteq> of_char CHR ''&'') (sep # param) = Some enc"
    by (intro matchGroup_here) simp_all
  moreover have "matchGroup nodeIdPrefixes (\<lambda>c. c \<noteq> of_char CHR ''&'') (mid @ sep # param) =
                 matchGroup nodeIdPrefixes (\<lambda>c. c \<noteq> of_char CHR ''&'') (sep # param)"
    by (rule matchGroup_skip_to_nodeId [OF mid sep])
  moreover have "matchGroup nodeIdPrefixes (\<lambda>c. c \<noteq> of_char CHR ''&'') url =
                 matchGroup nodeIdPrefixes (\<lambda>c. c \<noteq> of_char CHR ''&'') (mid @ sep # param)"
    unfolding url2 by (rule matchGroup_skip [OF front_ok])
  ultimately have nodeM: "matchGroup nodeIdPrefixes (\<lambda>c. c \<noteq> of_char CHR ''&'') url = Some enc"
    by simp
  show ?thesis
    using tr bare fileM nodeM dec by (simp add: parseFigmaUrl_def)
qed

lemma parse_bare_id:
  assumes "ident \<noteq> []" "\<forall>x \<in> set ident. is_alnum x"
  shows "parseFigmaUrl decodeURIComponent ident = Inr \<lparr>fileId = ident, nodeId = None\<rparr>"
proof -
  have "\<not> is_ws (hd ident)" "\<not> is_ws (last ident)"
    using assms by (auto intro!: alnum_not_ws)
  then have "trim ident = ident" by (intro trim_id) simp
  moreover have "matchWhole bareIdPattern ident"
    using assms by (simp add: matchWhole_iff lang_bareId)
  ultimately show ?thesis by (simp add: parseFigmaUrl_def)
qed

lemma parse_malformed:
  assumes "trim s \<notin> lang bareIdPattern" "\<not> occurs fileIdPattern (trim s)"
  shows "parseFigmaUrl decodeURIComponent s = Inl (Error (lit ''Invalid Figma URL format: '' @ s))"
  using assms by (simp add: parseFigmaUrl_def matchWhole_iff matchGroup_fileId_None [symmetric])

text \<open>
  Claim C8. (1) Take a URL that consists of a scheme and host part \<open>pre\<close> without the
  characters \<^verbatim>\<open>f\<close>, \<^verbatim>\<open>?\<close>, \<^verbatim>\<open>&\<close> (such as \<^verbatim>\<open>https://www.\<close>), then
  \<^verbatim>\<open>figma.com/file/\<close> or \<^verbatim>\<open>figma.com/design/\<close>, an alphanumeric document id, a
  slash, a part \<open>mid\<close> (the file name and any earlier query parameters) in which
  \<^verbatim>\<open>node-id=\<close> does not occur, then \<^verbatim>\<open>?\<close> or \<^verbatim>\<open>&\<close>, \<^verbatim>\<open>node-id=\<close> and a
  non-empty value without \<^verbatim>\<open>&\<close>, and then nothing or further parameters; the URL has
  no white space. On it \<open>parseFigmaUrl\<close> returns the document id and the decoding of the
  value. (2) On a non-empty alphanumeric string it returns that string as the document
  id, without a node id. (3) On an input whose trimmed text is not such a string and
  contains no match of the file pattern, it throws the error whose message carries the
  input as it was given.
\<close>

theorem C8_parseFigmaUrl:
  "((kind = lit ''file'' \<or> kind = lit ''design'') \<and>
    (\<forall>x \<in> set pre. x \<noteq> of_char CHR ''f'' \<and> x \<noteq> of_char CHR ''?'' \<and> x \<noteq> of_char CHR ''&'') \<and>
    fid \<noteq> [] \<and> (\<forall>x \<in> set fid. is_alnum x) \<and>
    \<not> (\<exists>a b. mid = a @ lit ''node-id='' @ b) \<and>
    (sep = of_char CHR ''?'' \<or> sep = of_char CHR ''&'') \<and>
    enc \<noteq> [] \<and> (\<forall>x \<in> set enc. x \<noteq> of_char CHR ''&'') \<and>
    (rest = [] \<or> hd rest = of_char CHR ''&'') \<and>
    url = pre @ lit ''figma.com/'' @ kind @ lit ''/'' @ fid @ lit ''/'' @ mid @
          [sep] @ lit ''node-id='' @ enc @ rest \<and>
    (\<forall>x \<in> set url. \<not> is_ws x) \<and> decodeURIComponent enc = Inr nid
    \<longrightarrow> parseFigmaUrl decodeURIComponent url = Inr \<lparr>fileId = fid, nodeId = Some nid\<rparr>) \<and>
   (ident \<noteq> [] \<and> (\<forall>x \<in> set ident. is_alnum x)
    \<longrightarrow> parseFigmaUrl decodeURIComponent ident = Inr \<lparr>fileId = ident, nodeId = None\<rparr>) \<and>
   (trim s \<notin> lang bareIdPattern \<and> \<not> occurs fileIdPattern (trim s)
    \<longrightarrow> parseFigmaUrl decodeURIComponent s = Inl (Error (lit ''Invalid Figma URL format: '' @ s)))"
  using parse_url [of kind pre fid mid sep enc rest url decodeURIComponent nid]
    parse_bare_id [of ident decodeURIComponent] parse_malformed [of s decodeURIComponent]
  by blast

lemmas pev = parseFigmaUrl_def trim_def lit_def is_ws_def is_alpha_def is_alnum_def
  bareIdPattern_def Many1_def alt_def cat_def fileIdPrefixes_def nodeIdPrefixes_def startsWith_def
  decodeFixture_def

theorem C8_parseFigmaUrl_witness:
  "decodeFixture (lit ''1%3A2'') = Inr (lit ''1:2'') \<and>
   parseFigmaUrl decodeFixture
     (lit ''https://www.figma.com/file/abc123/My-Design?type=design&node-id=1%3A2&t=x'')
     = Inr \<lparr>fileId = lit ''abc123'', nodeId = Some (lit ''1:2'')\<rparr> \<and>
   parseFigmaUrl decodeFixture (lit ''abc123'') = Inr \<lparr>fileId = lit ''abc123'', nodeId = None\<rparr> \<and>
   \<not> matchWhole bareIdPattern (trim (lit ''not a url'')) \<and>
   \<not> regex_test fileIdPattern (trim (lit ''not a url'')) \<and>
   parseFigmaUrl decodeFixture (lit ''not a url'')
     = Inl (Error (lit ''Invalid Figma URL format: not a url''))"
  using C8_parseFigmaUrl [of "lit ''file''" "lit ''https://www.''" "lit ''abc123''"
      "lit ''My-Design?type=design''" "of_char CHR ''&''" "lit ''1%3A2''" "lit ''&t=x''"
      "lit ''https://www.figma.com/file/abc123/My-Design?type=design&node-id=1%3A2&t=x''"
      decodeFixture "lit ''1:2''" "lit ''abc123''" "lit ''not a url''"]
  by (simp add: pev fileIdPattern_def Cats_def Str_def Chr_def)

section \<open>The safe writer\<close>













end
